theory Spec2Isabelle
  imports Complex_Main "HOL-Library.Log_Nat"
begin

section \<open>Strings\<close>

text \<open>
  A JavaScript string is a sequence of UTF-16 code units. A code unit is modelled by its
  numeric value, so that the whitespace classes of \<^verbatim>\<open>\s\<close> and \<^verbatim>\<open>trim\<close>, which reach
  beyond the 8-bit characters of HOL, are the ones of the language. \<open>str\<close> turns a HOL
  string literal into the code units of the same text.
\<close>

type_synonym jsstring = "int list"

definition str :: "string \<Rightarrow> jsstring" where
  "str s = map of_char s"

text \<open>\<^verbatim>\<open>\s\<close> and \<^verbatim>\<open>trim\<close>: the WhiteSpace and LineTerminator code points of ECMAScript.\<close>

definition is_space :: "int \<Rightarrow> bool" where
  "is_space c =
     (c = 9 \<or> c = 10 \<or> c = 11 \<or> c = 12 \<or> c = 13 \<or> c = 32 \<or> c = 160 \<or> c = 5760 \<or>
      (8192 \<le> c \<and> c \<le> 8202) \<or> c = 8232 \<or> c = 8233 \<or> c = 8239 \<or> c = 8287 \<or>
      c = 12288 \<or> c = 65279)"

text \<open>\<^verbatim>\<open>\d\<close> is 0-9, \<^verbatim>\<open>[A-Ga-g]\<close> the note letters, \<^verbatim>\<open>[,']\<close> the octave modifiers.\<close>

definition is_digit :: "int \<Rightarrow> bool" where
  "is_digit c = (48 \<le> c \<and> c \<le> 57)"

definition is_upper_note :: "int \<Rightarrow> bool" where
  "is_upper_note c = (65 \<le> c \<and> c \<le> 71)"

definition is_lower_note :: "int \<Rightarrow> bool" where
  "is_lower_note c = (97 \<le> c \<and> c \<le> 103)"

definition is_note_letter :: "int \<Rightarrow> bool" where
  "is_note_letter c = (is_upper_note c \<or> is_lower_note c)"

definition is_modifier :: "int \<Rightarrow> bool" where
  "is_modifier c = (c = 44 \<or> c = 39)"

text \<open>
  \<^verbatim>\<open>toUpperCase\<close> and \<^verbatim>\<open>toLowerCase\<close> on one code unit. The source applies them to
  a captured note letter only, where they are the ASCII case maps.
\<close>

definition toUpperCase :: "int \<Rightarrow> int" where
  "toUpperCase c = (if 97 \<le> c \<and> c \<le> 122 then c - 32 else c)"

definition toLowerCase :: "int \<Rightarrow> int" where
  "toLowerCase c = (if 65 \<le> c \<and> c \<le> 90 then c + 32 else c)"

text \<open>\<^verbatim>\<open>s.split(sep)\<close> for a one-character separator: never empty, \<^verbatim>\<open>"".split(";")\<close> is \<^verbatim>\<open>[""]\<close>.\<close>

fun split :: "int \<Rightarrow> jsstring \<Rightarrow> jsstring list" where
  "split sep [] = [[]]"
| "split sep (c # cs) =
     (if c = sep then [] # split sep cs
      else (case split sep cs of
              [] \<Rightarrow> [[c]]
            | seg # segs \<Rightarrow> (c # seg) # segs))"

definition trim :: "jsstring \<Rightarrow> jsstring" where
  "trim s = rev (dropWhile is_space (rev (dropWhile is_space s)))"

section \<open>The notation parser\<close>

record Sequence =
  "notes" :: "jsstring list"
  degrees :: "int list"

text \<open>\<^verbatim>\<open>NOTE_TO_DEGREE\<close>, a table from one-letter strings to degrees.\<close>

definition NOTE_TO_DEGREE :: "jsstring \<rightharpoonup> int" where
  "NOTE_TO_DEGREE =
     map_of [(str ''C'', 1), (str ''D'', 2), (str ''E'', 3), (str ''F'', 4),
             (str ''G'', 5), (str ''A'', 6), (str ''B'', 7)]"

text \<open>
  \<^verbatim>\<open>stripped.match(/[A-Ga-g](?:\d|[,']*)/g)\<close>: the matches from left to right. At a note
  letter the alternative \<^verbatim>\<open>\d\<close> is tried first, then the longest run of modifiers (which
  may be empty); the scan goes on after the match. Any other code unit is passed over.
\<close>

function matchAll :: "jsstring \<Rightarrow> jsstring list" where
  "matchAll [] = []"
| "matchAll (c # cs) =
     (if is_note_letter c then
        (case cs of
           [] \<Rightarrow> [[c]]
         | d # ds \<Rightarrow>
             if is_digit d then [c, d] # matchAll ds
             else (c # takeWhile is_modifier cs) # matchAll (dropWhile is_modifier cs))
      else matchAll cs)"
  by pat_completeness auto
termination
  by (relation "measure length")
    (auto simp: less_Suc_eq_le intro!: le_SucI length_dropWhile_le)

definition tokenizeNotes :: "jsstring \<Rightarrow> jsstring list" where
  "tokenizeNotes input = matchAll (filter (\<lambda>c. \<not> is_space c) input)"

text \<open>\<^verbatim>\<open>token.match(/^([A-Ga-g])(\d)$/)\<close>: the two captures.\<close>

definition explicitMatch :: "jsstring \<Rightarrow> (int \<times> int) option" where
  "explicitMatch token =
     (case token of
        [l, d] \<Rightarrow> if is_note_letter l \<and> is_digit d then Some (l, d) else None
      | _ \<Rightarrow> None)"

text \<open>\<^verbatim>\<open>token.match(/^([A-Ga-g])([,']*)?$/)\<close>: the letter and the modifiers.\<close>

definition abcMatch :: "jsstring \<Rightarrow> (int \<times> jsstring) option" where
  "abcMatch token =
     (case token of
        [] \<Rightarrow> None
      | l # ms \<Rightarrow> if is_note_letter l \<and> list_all is_modifier ms then Some (l, ms) else None)"

text \<open>One turn of the loop over the modifiers.\<close>

definition shiftOctave :: "int \<Rightarrow> int \<Rightarrow> int" where
  "shiftOctave octave ch =
     (let o1 = (if ch = 44 then octave - 1 else octave)
      in if ch = 39 then o1 + 1 else o1)"

text \<open>
  \<open>normalizeNote\<close>; \<open>None\<close> is the source's \<^verbatim>\<open>null\<close>. The clamped octave is between 0
  and 7, so its decimal text is the one digit \<open>48 + octave\<close>.
\<close>

definition normalizeNote :: "jsstring \<Rightarrow> jsstring option" where
  "normalizeNote token =
     (case explicitMatch token of
        Some (l, d) \<Rightarrow> Some [toUpperCase l, d]
      | None \<Rightarrow>
          (case abcMatch token of
             None \<Rightarrow> None
           | Some (letter, modifiers) \<Rightarrow>
               (let isLower = (letter = toLowerCase letter);
                    octave = foldl shiftOctave (if isLower then 5 else 4) modifiers;
                    octave' = max 0 (min 7 octave)
                in Some [toUpperCase letter, 48 + octave'])))"

text \<open>
  The loop of \<open>parseSequences\<close> over the tokens of one segment, with the notes and
  degrees pushed so far. A token that does not normalize (or normalizes to a falsy,
  empty string) leaves the loop with the empty Sequence. \<^verbatim>\<open>normalized[0]\<close> is the first
  character as a string, and a missing table entry gives degree 0.
\<close>

fun collectNotes :: "jsstring list \<Rightarrow> jsstring list \<Rightarrow> int list \<Rightarrow> Sequence" where
  "collectNotes [] ns ds = \<lparr>notes = ns, degrees = ds\<rparr>"
| "collectNotes (tok # toks) ns ds =
     (case normalizeNote tok of
        None \<Rightarrow> \<lparr>notes = [], degrees = []\<rparr>
      | Some normalized \<Rightarrow>
          if normalized = [] then \<lparr>notes = [], degrees = []\<rparr>
          else collectNotes toks (ns @ [normalized])
                 (ds @ [case NOTE_TO_DEGREE (take 1 normalized) of None \<Rightarrow> 0 | Some d \<Rightarrow> d]))"

definition parseSegment :: "jsstring \<Rightarrow> Sequence" where
  "parseSegment seqStr = collectNotes (tokenizeNotes seqStr) [] []"

text \<open>The last filter of \<open>parseSequences\<close>.\<close>

definition keepSequence :: "Sequence \<Rightarrow> bool" where
  "keepSequence seq = (length (notes seq) > 0 \<and> list_all (\<lambda>d. d > 0) (degrees seq))"

definition parseSequences :: "jsstring \<Rightarrow> Sequence list" where
  "parseSequences param =
     filter keepSequence
       (map parseSegment
          (filter (\<lambda>s. s \<noteq> [])
             (map trim (split 59 param))))"

section \<open>The round state machine\<close>

text \<open>
  The Sequence objects of the collection are compared by identity (\<^verbatim>\<open>item !== exclude\<close>).
  An object is modelled with its address; \<open>allocate\<close> gives the objects of a parsed
  collection the addresses 0, 1, ...
\<close>

type_synonym 'a ref = "nat \<times> 'a"

definition allocate :: "'a list \<Rightarrow> 'a ref list" where
  "allocate xs = zip [0..<length xs] xs"

text \<open>\<^verbatim>\<open>xs[i]\<close>; \<open>None\<close> is \<^verbatim>\<open>undefined\<close>.\<close>

definition index :: "'a list \<Rightarrow> int \<Rightarrow> 'a option" where
  "index xs i = (if 0 \<le> i \<and> i < int (length xs) then Some (xs ! nat i) else None)"

datatype GameState = idle | playing | answering | result

text \<open>
  The state of the component that the round uses. \<open>startRoundCurrent\<close> is the value of
  \<^verbatim>\<open>current\<close> that the memoized \<^verbatim>\<open>startRound\<close> closed over: \<^verbatim>\<open>useCallback\<close> with the
  dependency list \<^verbatim>\<open>[sequences]\<close> keeps the function of the render in which \<^verbatim>\<open>sequences\<close>
  last changed, with the \<^verbatim>\<open>current\<close> of that render. The other handlers are made anew
  in every render (\<^verbatim>\<open>replay\<close> whenever \<^verbatim>\<open>current\<close> or \<^verbatim>\<open>isPlaying\<close> changes) and read the
  state as it is.
\<close>

record App =
  sequences :: "Sequence ref list"
  current :: "Sequence ref option"
  userAnswer :: "int list"
  gameState :: GameState
  isCorrect :: "bool option"
  showAnswer :: bool
  isPlaying :: bool
  startRoundCurrent :: "Sequence ref option"

text \<open>What a handler asks of the audio module, or the exception it ends with.\<close>

datatype Effect = NoEffect | PlaySequence "jsstring list" | TypeError

definition initialState :: App where
  "initialState =
     \<lparr>sequences = [], current = None, userAnswer = [], gameState = idle,
      isCorrect = None, showAnswer = False, isPlaying = False, startRoundCurrent = None\<rparr>"

text \<open>\<^verbatim>\<open>setSequences\<close>: the one change of \<^verbatim>\<open>sequences\<close>, after which \<^verbatim>\<open>startRound\<close> is made anew.\<close>

definition setSequences :: "Sequence ref list \<Rightarrow> App \<Rightarrow> App" where
  "setSequences parsed s = s\<lparr>sequences := parsed, startRoundCurrent := current s\<rparr>"

text \<open>The effect that runs once after the first render, on the \<^verbatim>\<open>s\<close> parameter of the URL.\<close>

definition mount :: "jsstring \<Rightarrow> App" where
  "mount seqParam = setSequences (allocate (parseSequences seqParam)) initialState"

text \<open>
  \<open>pickRandom\<close>, with the value of \<^verbatim>\<open>Math.random()\<close> as \<open>rnd\<close>. Two objects are the same
  when their addresses are.
\<close>

definition pickRandom :: "real \<Rightarrow> 'a ref list \<Rightarrow> 'a ref option \<Rightarrow> 'a ref option" where
  "pickRandom rnd arr exclude =
     (if length arr \<le> 1 then index arr 0
      else (let filtered = filter (\<lambda>item. Some (fst item) \<noteq> map_option fst exclude) arr
            in index filtered \<lfloor>rnd * real (length filtered)\<rfloor>))"

text \<open>
  \<open>startRound\<close> up to its \<^verbatim>\<open>await\<close>, and \<open>startRoundResume\<close>, the rest of it, which runs
  when the playback has resolved. Reading \<^verbatim>\<open>seq!.notes\<close> of \<^verbatim>\<open>undefined\<close> throws, after
  the setters.
\<close>

definition startRound :: "real \<Rightarrow> App \<Rightarrow> App \<times> Effect" where
  "startRound rnd s =
     (if length (sequences s) = 0 then (s, NoEffect)
      else (let seq = pickRandom rnd (sequences s) (startRoundCurrent s)
            in (s\<lparr>current := seq, userAnswer := [], isCorrect := None, showAnswer := False,
                  gameState := playing, isPlaying := True\<rparr>,
                case seq of None \<Rightarrow> TypeError | Some q \<Rightarrow> PlaySequence (notes (snd q)))))"

definition startRoundResume :: "App \<Rightarrow> App" where
  "startRoundResume s = s\<lparr>isPlaying := False, gameState := answering\<rparr>"

definition replay :: "App \<Rightarrow> App \<times> Effect" where
  "replay s =
     (case current s of
        None \<Rightarrow> (s, NoEffect)
      | Some c \<Rightarrow>
          if isPlaying s then (s, NoEffect)
          else (s\<lparr>isPlaying := True\<rparr>, PlaySequence (notes (snd c))))"

definition addDegree :: "int \<Rightarrow> App \<Rightarrow> App" where
  "addDegree degree s =
     (if gameState s \<noteq> answering then s else s\<lparr>userAnswer := userAnswer s @ [degree]\<rparr>)"

text \<open>\<^verbatim>\<open>xs.every((d, i) => p(d, i))\<close>, from index \<open>i\<close> on.\<close>

fun every :: "('a \<Rightarrow> int \<Rightarrow> bool) \<Rightarrow> 'a list \<Rightarrow> int \<Rightarrow> bool" where
  "every p [] i = True"
| "every p (x # xs) i = (p x i \<and> every p xs (i + 1))"

text \<open>The \<^verbatim>\<open>correct\<close> of \<open>submit\<close>.\<close>

definition correct :: "int list \<Rightarrow> int list \<Rightarrow> bool" where
  "correct answer target =
     (length answer = length target \<and> every (\<lambda>d i. index target i = Some d) answer 0)"

definition submit :: "App \<Rightarrow> App" where
  "submit s =
     (case current s of
        None \<Rightarrow> s
      | Some c \<Rightarrow>
          if length (userAnswer s) = 0 then s
          else s\<lparr>isCorrect := Some (correct (userAnswer s) (degrees (snd c))),
                 gameState := result\<rparr>)"

section \<open>The audio module: the wait of a playback\<close>

text \<open>
  A JavaScript number is a binary64 floating-point number. Its values are modelled as
  rationals, and an arithmetic operation as the exact operation followed by \<open>binary64\<close>,
  the rounding to the nearest number with a significand of 53 bits, a tie going to the even
  significand. The range of the exponent is left unbounded: the numbers of this module
  are far from overflow and from the subnormal range.

  \<open>exponent x\<close> is the integer \<open>e\<close> with \<open>2 powi e \<le> x < 2 powi (e + 1)\<close>, for a positive \<open>x\<close>.
\<close>

definition exponent :: "rat \<Rightarrow> int" where
  "exponent x = (if 1 \<le> x then bitlen \<lfloor>x\<rfloor> - 1 else - bitlen (\<lceil>1 / x\<rceil> - 1))"

definition roundHalfEven :: "rat \<Rightarrow> int" where
  "roundHalfEven q =
     (let f = \<lfloor>q\<rfloor>; r = q - of_int f
      in if r < 1 / 2 then f else if 1 / 2 < r then f + 1 else if even f then f else f + 1)"

definition binary64 :: "rat \<Rightarrow> rat" where
  "binary64 x =
     (if x = 0 then 0
      else (let ulp = 2 powi (exponent \<bar>x\<bar> - 52)
            in sgn x * of_int (roundHalfEven (\<bar>x\<bar> / ulp)) * ulp))"

text \<open>The constants of \<open>playSequence\<close>, the literals \<^verbatim>\<open>0.5\<close> and \<^verbatim>\<open>0.1\<close>.\<close>

definition noteDuration :: rat where
  "noteDuration = binary64 (1 / 2)"

definition gap :: rat where
  "gap = binary64 (1 / 10)"

text \<open>\<^verbatim>\<open>notes.length * (noteDuration + gap)\<close>, in seconds, for the notes \<open>ns\<close>.\<close>

definition totalDuration :: "jsstring list \<Rightarrow> rat" where
  "totalDuration ns = binary64 (of_nat (length ns) * binary64 (noteDuration + gap))"

text \<open>
  \<^verbatim>\<open>totalDuration * 1000\<close>, the delay in milliseconds that \<open>playSequence\<close> hands to
  \<^verbatim>\<open>setTimeout\<close>; the promise it returns resolves when that timer fires.
\<close>

definition timeoutDelay :: "jsstring list \<Rightarrow> rat" where
  "timeoutDelay ns = binary64 (totalDuration ns * 1000)"

text \<open>
  The timer takes its delay as a whole number of milliseconds, the integer part of the
  number it is given (for a delay below \<open>2 ^ 31\<close>), and fires no earlier than that.
\<close>

definition timerMs :: "jsstring list \<Rightarrow> int" where
  "timerMs ns = \<lfloor>timeoutDelay ns\<rfloor>"

section \<open>Playbacks in flight\<close>

text \<open>
  The component together with the playbacks that were requested and whose promise has
  not resolved yet: for each the time in milliseconds at which its timer is due, and the
  rest of the handler that awaits it.
\<close>

datatype Continuation = StartRoundRest | ReplayRest

record World =
  app :: App
  pending :: "(int \<times> Continuation) list"

text \<open>The rest of \<open>replay\<close> after its \<^verbatim>\<open>await\<close>.\<close>

definition replayResume :: "App \<Rightarrow> App" where
  "replayResume s = s\<lparr>isPlaying := False\<rparr>"

definition resume :: "Continuation \<Rightarrow> App \<Rightarrow> App" where
  "resume k s = (case k of StartRoundRest \<Rightarrow> startRoundResume s | ReplayRest \<Rightarrow> replayResume s)"

text \<open>Time goes on to \<open>t\<close>: the timers due by then fire, the earliest first.\<close>

definition elapse :: "int \<Rightarrow> World \<Rightarrow> World" where
  "elapse t w =
     \<lparr>app = foldl (\<lambda>s p. resume (snd p) s) (app w)
              (sort_key fst (filter (\<lambda>p. fst p \<le> t) (pending w))),
      pending = filter (\<lambda>p. t < fst p) (pending w)\<rparr>"

text \<open>At time \<open>t\<close> the user triggers a handler that only sets state.\<close>

definition act :: "int \<Rightarrow> (App \<Rightarrow> App) \<Rightarrow> World \<Rightarrow> World" where
  "act t handler w = (let w' = elapse t w in w'\<lparr>app := handler (app w')\<rparr>)"

text \<open>
  At time \<open>t\<close> the user triggers a handler that may call \<open>playSequence\<close> and await it
  (the piano is loaded): the playback is in flight until its timer is due.
\<close>

definition request :: "int \<Rightarrow> (App \<Rightarrow> App \<times> Effect) \<Rightarrow> Continuation \<Rightarrow> World \<Rightarrow> World" where
  "request t handler k w =
     (let w' = elapse t w; r = handler (app w')
      in \<lparr>app = fst r,
          pending = (case snd r of
                       PlaySequence ns \<Rightarrow> pending w' @ [(t + timerMs ns, k)]
                     | _ \<Rightarrow> pending w')\<rparr>)"

section \<open>Normalization of a token\<close>

lemmas char_class_defs = is_note_letter_def is_upper_note_def is_lower_note_def is_digit_def is_modifier_def

lemma foldl_shiftOctave:
  "list_all is_modifier ms \<Longrightarrow>
   foldl shiftOctave b ms = b + int (count_list ms 39) - int (count_list ms 44)"
  by (induction ms arbitrary: b) (auto simp: shiftOctave_def is_modifier_def)

lemma explicitMatch_modifiers:
  "list_all is_modifier ms \<Longrightarrow> explicitMatch (l # ms) = None"
  by (auto simp: explicitMatch_def char_class_defs split: list.splits)

lemma lower_iff: "is_note_letter l \<Longrightarrow> (l = toLowerCase l) = is_lower_note l"
  by (auto simp: toLowerCase_def char_class_defs)

lemma upper_note_toUpperCase: "is_note_letter l \<Longrightarrow> is_upper_note (toUpperCase l)"
  by (auto simp: toUpperCase_def char_class_defs)

text \<open>
  C3: a token that is a note letter followed by modifiers normalizes, without a failure, to
  the upper-case letter and one octave digit. The octave starts at 5 for a lower-case
  letter and at 4 for an upper-case one, goes down by one for every comma and up by one for
  every apostrophe of the run, and is clamped to the range from 0 to 7 at the end.
\<close>

theorem normalizeNote_abc:
  assumes "is_note_letter l" and "list_all is_modifier ms"
  shows "\<exists>octave. normalizeNote (l # ms) = Some [toUpperCase l, 48 + octave] \<and>
           is_upper_note (toUpperCase l) \<and>
           octave = max 0 (min 7 ((if is_lower_note l then 5 else 4)
                      + int (count_list ms 39) - int (count_list ms 44))) \<and>
           0 \<le> octave \<and> octave \<le> 7"
  using assms
  by (simp add: normalizeNote_def explicitMatch_modifiers abcMatch_def lower_iff
      foldl_shiftOctave upper_note_toUpperCase Let_def)

theorem normalizeNote_abc_witness:
  "is_note_letter 67 \<and> list_all is_modifier [44, 44, 44, 44, 44, 44, 44, 44] \<and>
   normalizeNote (str ''C,,,,,,,,'') = Some (str ''C0'')"
  using normalizeNote_abc [of 67 "[44, 44, 44, 44, 44, 44, 44, 44]"]
  by (simp add: str_def char_class_defs toUpperCase_def)

lemma list_all_takeWhile: "list_all P (takeWhile P xs)"
  by (induction xs) auto

lemma matchAll_shapes:
  "tok \<in> set (matchAll s) \<Longrightarrow> explicitMatch tok \<noteq> None \<or> abcMatch tok \<noteq> None"
proof (induction s rule: matchAll.induct)
  case 1
  then show ?case by simp
next
  case (2 c cs)
  show ?case
  proof (cases "is_note_letter c")
    case False
    with 2 show ?thesis by simp
  next
    case letter: True
    show ?thesis
    proof (cases cs)
      case Nil
      with 2 letter show ?thesis by (simp add: abcMatch_def)
    next
      case (Cons d ds)
      show ?thesis
      proof (cases "is_digit d")
        case True
        with 2 letter Cons show ?thesis by (auto simp: explicitMatch_def)
      next
        case False
        with 2 letter Cons show ?thesis
          by (auto simp: abcMatch_def list_all_takeWhile simp del: takeWhile.simps dropWhile.simps)
      qed
    qed
  qed
qed

lemma normalizeNote_shape:
  assumes "normalizeNote tok = Some n"
  shows "\<exists>l d. n = [l, d] \<and> is_upper_note l \<and> is_digit d \<and>
           (d \<le> 55 \<or> (\<exists>l0. explicitMatch tok = Some (l0, d)))"
proof (cases "explicitMatch tok")
  case (Some p)
  obtain l0 d where p: "p = (l0, d)" by (cases p)
  from Some p have "is_note_letter l0" "is_digit d"
    by (auto simp: explicitMatch_def split: list.splits if_splits)
  with Some p assms show ?thesis
    by (auto simp: normalizeNote_def upper_note_toUpperCase)
next
  case None
  with assms obtain l ms where abc: "abcMatch tok = Some (l, ms)"
    by (auto simp: normalizeNote_def split: option.splits)
  then have "is_note_letter l"
    by (auto simp: abcMatch_def split: list.splits if_splits)
  with None abc assms show ?thesis
    by (auto simp: normalizeNote_def Let_def upper_note_toUpperCase is_digit_def)
qed

lemma normalizeNote_accepts:
  assumes "explicitMatch tok \<noteq> None \<or> abcMatch tok \<noteq> None"
  shows "\<exists>l d. normalizeNote tok = Some [l, d] \<and> is_upper_note l \<and> is_digit d"
proof -
  from assms have "normalizeNote tok \<noteq> None"
    by (auto simp: normalizeNote_def Let_def split: option.splits)
  then obtain n where "normalizeNote tok = Some n" by blast
  with normalizeNote_shape [of tok n] show ?thesis by auto
qed

lemma degree_of_upper_note:
  assumes "is_upper_note l"
  shows "\<exists>g. NOTE_TO_DEGREE [l] = Some g \<and> 1 \<le> g \<and> g \<le> 7"
proof -
  from assms have "l = 65 \<or> l = 66 \<or> l = 67 \<or> l = 68 \<or> l = 69 \<or> l = 70 \<or> l = 71"
    unfolding is_upper_note_def by arith
  then show ?thesis
    by (auto simp: NOTE_TO_DEGREE_def str_def)
qed

section \<open>The parser on the example of the specification\<close>

text \<open>
  C1: \<open>parseSequences\<close> on \<^verbatim>\<open>CFGc;C,EGc\<close> gives two Sequences in the order of the input, the
  notes C4 F4 G4 C5 with the degrees 1 4 5 1, then C3 E4 G4 C5 with 1 3 5 1.
\<close>

theorem parse_end_to_end:
  "parseSequences (str ''CFGc;C,EGc'') =
     [\<lparr>notes = [str ''C4'', str ''F4'', str ''G4'', str ''C5''], degrees = [1, 4, 5, 1]\<rparr>,
      \<lparr>notes = [str ''C3'', str ''E4'', str ''G4'', str ''C5''], degrees = [1, 3, 5, 1]\<rparr>]"
  by code_simp

section \<open>What the tokenizer hands to the loop\<close>

lemma collectNotes_accepted:
  assumes "\<forall>tok \<in> set toks. explicitMatch tok \<noteq> None \<or> abcMatch tok \<noteq> None"
  shows "map Some (notes (collectNotes toks ns ds)) = map Some ns @ map normalizeNote toks \<and>
         length (degrees (collectNotes toks ns ds)) = length ds + length toks \<and>
         (list_all (\<lambda>g. 1 \<le> g \<and> g \<le> 7) ds \<longrightarrow>
            list_all (\<lambda>g. 1 \<le> g \<and> g \<le> 7) (degrees (collectNotes toks ns ds)))"
  using assms
proof (induction toks arbitrary: ns ds)
  case Nil
  then show ?case by simp
next
  case (Cons tok toks)
  then have "explicitMatch tok \<noteq> None \<or> abcMatch tok \<noteq> None" by simp
  then obtain l d where n: "normalizeNote tok = Some [l, d]" and l: "is_upper_note l"
    using normalizeNote_accepts by blast
  from l obtain g where g: "NOTE_TO_DEGREE [l] = Some g" "1 \<le> g" "g \<le> 7"
    using degree_of_upper_note by blast
  from Cons.prems have rest: "\<forall>tok \<in> set toks. explicitMatch tok \<noteq> None \<or> abcMatch tok \<noteq> None"
    by simp
  show ?case
    using Cons.IH [OF rest, of "ns @ [[l, d]]" "ds @ [g]"] n g by simp
qed

lemma takeWhile_stop: "\<not> P c \<Longrightarrow> takeWhile P (xs @ c # ys) = takeWhile P xs"
  by (induction xs) auto

lemma dropWhile_stop: "\<not> P c \<Longrightarrow> dropWhile P (xs @ c # ys) = dropWhile P xs @ c # ys"
  by (induction xs) auto

lemma matchAll_skip:
  assumes "\<not> is_note_letter c" and "\<not> is_digit c" and "\<not> is_modifier c"
  shows "matchAll (xs @ c # ys) = matchAll xs @ matchAll ys"
proof (induction xs rule: matchAll.induct)
  case 1
  from assms show ?case by simp
next
  case (2 a as)
  show ?case
  proof (cases "is_note_letter a")
    case False
    with 2 show ?thesis by simp
  next
    case letter: True
    show ?thesis
    proof (cases as)
      case Nil
      with letter assms show ?thesis by simp
    next
      case (Cons d ds)
      show ?thesis
      proof (cases "is_digit d")
        case True
        with 2 letter Cons show ?thesis by simp
      next
        case False
        have "takeWhile is_modifier (as @ c # ys) = takeWhile is_modifier as"
          and "dropWhile is_modifier (as @ c # ys) = dropWhile is_modifier as @ c # ys"
          using assms by (simp_all add: takeWhile_stop dropWhile_stop)
        moreover have "matchAll ((a # as) @ c # ys) =
            (a # takeWhile is_modifier (as @ c # ys)) # matchAll (dropWhile is_modifier (as @ c # ys))"
          using letter Cons False by simp
        moreover have "matchAll (a # as) =
            (a # takeWhile is_modifier as) # matchAll (dropWhile is_modifier as)"
          using letter Cons False by simp
        ultimately show ?thesis
          using 2(2) [OF letter Cons False] by simp
      qed
    qed
  qed
qed

text \<open>
  C10: every token of the tokenizer has one of the two shapes that \<open>normalizeNote\<close>
  accepts, normalizes to a note whose letter is between A and G, and has a degree
  between 1 and 7 in the table. So the loop over the tokens of a segment never takes its
  early exit and never pushes the degree 0: the notes of the segment are the normalized
  tokens, one for one, and the segment is kept exactly when it has a token. A code unit
  that is no note letter is passed over at the start of the scan, and one that is neither
  a note letter, a digit, a modifier nor whitespace only separates the tokens on its two
  sides.
\<close>

theorem tokens_always_normalize:
  "(\<forall>tok \<in> set (tokenizeNotes input).
      (explicitMatch tok \<noteq> None \<or> abcMatch tok \<noteq> None) \<and>
      (\<exists>l d g. normalizeNote tok = Some [l, d] \<and> is_upper_note l \<and>
         NOTE_TO_DEGREE [l] = Some g \<and> 1 \<le> g \<and> g \<le> 7)) \<and>
   map Some (notes (parseSegment input)) = map normalizeNote (tokenizeNotes input) \<and>
   length (degrees (parseSegment input)) = length (tokenizeNotes input) \<and>
   list_all (\<lambda>g. 1 \<le> g \<and> g \<le> 7) (degrees (parseSegment input)) \<and>
   keepSequence (parseSegment input) = (tokenizeNotes input \<noteq> []) \<and>
   (\<not> is_note_letter c \<longrightarrow> tokenizeNotes (c # input) = tokenizeNotes input) \<and>
   (\<not> is_note_letter c \<and> \<not> is_digit c \<and> \<not> is_modifier c \<and> \<not> is_space c \<longrightarrow>
      tokenizeNotes (input @ c # rest) = tokenizeNotes input @ tokenizeNotes rest)"
proof -
  have shapes: "\<forall>tok \<in> set (tokenizeNotes input). explicitMatch tok \<noteq> None \<or> abcMatch tok \<noteq> None"
    unfolding tokenizeNotes_def using matchAll_shapes by blast
  have normal: "\<exists>l d g. normalizeNote tok = Some [l, d] \<and> is_upper_note l \<and>
         NOTE_TO_DEGREE [l] = Some g \<and> 1 \<le> g \<and> g \<le> 7"
    if "tok \<in> set (tokenizeNotes input)" for tok
  proof -
    from that shapes obtain l d where "normalizeNote tok = Some [l, d]" "is_upper_note l"
      using normalizeNote_accepts by blast
    then show ?thesis using degree_of_upper_note [of l] by blast
  qed
  note col = collectNotes_accepted [OF shapes, of "[]" "[]"]
  have notes_eq: "map Some (notes (parseSegment input)) = map normalizeNote (tokenizeNotes input)"
    using col by (simp add: parseSegment_def)
  have len: "length (degrees (parseSegment input)) = length (tokenizeNotes input)"
    using col by (simp add: parseSegment_def)
  have degs: "list_all (\<lambda>g. 1 \<le> g \<and> g \<le> 7) (degrees (parseSegment input))"
    using col by (simp add: parseSegment_def)
  have "length (notes (parseSegment input)) = length (tokenizeNotes input)"
    using notes_eq by (metis length_map)
  moreover have "list_all (\<lambda>d. d > 0) (degrees (parseSegment input))"
    using degs by (auto simp: list_all_iff)
  ultimately have keep: "keepSequence (parseSegment input) = (tokenizeNotes input \<noteq> [])"
    by (simp add: keepSequence_def)
  have skip1: "tokenizeNotes (c # input) = tokenizeNotes input" if "\<not> is_note_letter c"
    using that by (simp add: tokenizeNotes_def)
  have skip2: "tokenizeNotes (input @ c # rest) = tokenizeNotes input @ tokenizeNotes rest"
    if "\<not> is_note_letter c \<and> \<not> is_digit c \<and> \<not> is_modifier c \<and> \<not> is_space c"
    using that by (simp add: tokenizeNotes_def matchAll_skip)
  from shapes normal notes_eq len degs keep skip1 skip2 show ?thesis by blast
qed

theorem tokens_always_normalize_witness:
  "str ''c'' \<in> set (tokenizeNotes (str ''c'')) \<and>
   normalizeNote (str ''c'') = Some (str ''C5'') \<and> NOTE_TO_DEGREE (str ''C'') = Some 1 \<and>
   keepSequence (parseSegment (str ''c'')) \<and>
   \<not> is_note_letter 72 \<and> \<not> is_digit 72 \<and> \<not> is_modifier 72 \<and> \<not> is_space 72 \<and>
   tokenizeNotes (72 # str ''c'') = [str ''c''] \<and>
   tokenizeNotes (str ''c'' @ 72 # str ''G9'') = [str ''c'', str ''G9'']"
proof -
  have toks: "tokenizeNotes (str ''c'') = [str ''c'']" "tokenizeNotes (str ''G9'') = [str ''G9'']"
    by code_simp+
  have junk: "\<not> is_note_letter 72" "\<not> is_digit 72" "\<not> is_modifier 72" "\<not> is_space 72"
    by code_simp+
  have norm: "normalizeNote (str ''c'') = Some (str ''C5'')" "NOTE_TO_DEGREE (str ''C'') = Some 1"
    by code_simp+
  from tokens_always_normalize [of "str ''c''" 72 "str ''G9''"] toks junk norm
  show ?thesis by simp
qed

section \<open>A segment with text that is no token\<close>









section \<open>The octave of a parsed note\<close>

lemma collectNotes_origin:
  "n \<in> set (notes (collectNotes toks ns ds)) \<Longrightarrow>
   n \<in> set ns \<or> (\<exists>tok \<in> set toks. normalizeNote tok = Some n)"
proof (induction toks arbitrary: ns ds)
  case Nil
  then show ?case by simp
next
  case (Cons t toks)
  show ?case
  proof (cases "normalizeNote t")
    case None
    with Cons.prems show ?thesis by simp
  next
    case (Some m)
    show ?thesis
    proof (cases "m = []")
      case True
      with Some Cons.prems show ?thesis by simp
    next
      case False
      define g where "g = (case NOTE_TO_DEGREE (take 1 m) of None \<Rightarrow> 0 | Some d \<Rightarrow> d)"
      have step: "collectNotes (t # toks) ns ds = collectNotes toks (ns @ [m]) (ds @ [g])"
        using Some False by (simp add: g_def)
      from Cons.prems have "n \<in> set (notes (collectNotes toks (ns @ [m]) (ds @ [g])))"
        unfolding step .
      from Cons.IH [OF this] Some show ?thesis by auto
    qed
  qed
qed

text \<open>
  C5, as the code has it: every note of every parsed Sequence is the normal form of a token
  of one of the segments, an upper-case letter between A and G followed by one digit
  between 0 and 9. The digit is at most 7 unless the token is a letter with an explicit
  digit, which is kept as it is.
\<close>

theorem parsed_notes_canonical:
  assumes "seq \<in> set (parseSequences raw)" and "n \<in> set (notes seq)"
  shows "\<exists>seg \<in> set (split 59 raw). \<exists>tok \<in> set (tokenizeNotes (trim seg)). \<exists>l d.
           normalizeNote tok = Some n \<and> n = [l, d] \<and> is_upper_note l \<and> is_digit d \<and>
           (d \<le> 55 \<or> (\<exists>l0. explicitMatch tok = Some (l0, d)))"
proof -
  from assms(1) obtain seg where seg: "seg \<in> set (split 59 raw)"
    and seq: "seq = parseSegment (trim seg)"
    by (auto simp: parseSequences_def)
  from assms(2) seq have "n \<in> set (notes (collectNotes (tokenizeNotes (trim seg)) [] []))"
    by (simp add: parseSegment_def)
  from collectNotes_origin [OF this] obtain tok where tok: "tok \<in> set (tokenizeNotes (trim seg))"
    and n: "normalizeNote tok = Some n"
    by auto
  from normalizeNote_shape [OF n] seg tok n show ?thesis by blast
qed

theorem parsed_notes_canonical_witness:
  "\<lparr>notes = [str ''C9'', str ''C3''], degrees = [1, 1]\<rparr> \<in> set (parseSequences (str ''C9c,,'')) \<and>
   (\<exists>seg \<in> set (split 59 (str ''C9c,,'')). \<exists>tok \<in> set (tokenizeNotes (trim seg)). \<exists>l d.
      normalizeNote tok = Some (str ''C3'') \<and> str ''C3'' = [l, d] \<and> is_upper_note l \<and>
      is_digit d \<and> (d \<le> 55 \<or> (\<exists>l0. explicitMatch tok = Some (l0, d))))"
proof -
  have p: "parseSequences (str ''C9c,,'') =
             [\<lparr>notes = [str ''C9'', str ''C3''], degrees = [1, 1]\<rparr>]"
    by code_simp
  have h1: "\<lparr>notes = [str ''C9'', str ''C3''], degrees = [1, 1]\<rparr>
              \<in> set (parseSequences (str ''C9c,,''))"
    by (simp add: p)
  have h2: "str ''C3'' \<in> set (notes \<lparr>notes = [str ''C9'', str ''C3''], degrees = [1, 1]\<rparr>)"
    by simp
  from parsed_notes_canonical [OF h1 h2] h1 show ?thesis by blast
qed

text \<open>The explicit token \<^verbatim>\<open>C9\<close> is parsed to the note C9, whose octave is above 7.\<close>

theorem octave_above_seven_counterexample:
  "parseSequences (str ''C9'') = [\<lparr>notes = [str ''C9''], degrees = [1]\<rparr>]"
  by code_simp

section \<open>Grading\<close>

lemma every_drop:
  "k \<le> length target \<Longrightarrow> length answer = length target - k \<Longrightarrow>
   every (\<lambda>d i. index target i = Some d) answer (int k) = (answer = drop k target)"
proof (induction answer arbitrary: k)
  case Nil
  then show ?case by simp
next
  case (Cons a as)
  then have k: "k < length target" by simp
  then have d: "drop k target = target ! k # drop (Suc k) target"
    by (simp add: Cons_nth_drop_Suc)
  have "length as = length target - Suc k" "Suc k \<le> length target"
    using Cons.prems by simp_all
  then have "every (\<lambda>d i. index target i = Some d) as (int (Suc k)) = (as = drop (Suc k) target)"
    using Cons.IH [of "Suc k"] by blast
  then have "every (\<lambda>d i. index target i = Some d) as (int k + 1) = (as = drop (Suc k) target)"
    by (simp add: add.commute)
  with k d show ?case by (auto simp: index_def)
qed

lemma correct_iff: "correct answer target = (answer = target)"
  using every_drop [of 0 target answer] by (auto simp: correct_def)

text \<open>
  C2: \<open>submit\<close> leaves the state as it is when the answer is empty. With a chosen Sequence
  and an answer that is not empty, it records the answer as correct exactly when the answer
  is as long as the degrees of the Sequence and equal to them at every index, and sets the
  state to \<open>result\<close>. Against the degrees 1 4 5 1 the answer 1 4 5 1 is correct, the answers
  1 4 5 and 1 4 5 2 are not.
\<close>

theorem submit_grades:
  "(userAnswer s = [] \<longrightarrow> submit s = s) \<and>
   (current s = Some c \<and> userAnswer s \<noteq> [] \<longrightarrow>
      submit s = s\<lparr>isCorrect :=
                      Some (length (userAnswer s) = length (degrees (snd c)) \<and>
                            (\<forall>i < length (userAnswer s). userAnswer s ! i = degrees (snd c) ! i)),
                    gameState := result\<rparr>) \<and>
   correct [1, 4, 5, 1] [1, 4, 5, 1] \<and> \<not> correct [1, 4, 5] [1, 4, 5, 1] \<and>
   \<not> correct [1, 4, 5, 2] [1, 4, 5, 1]"
proof -
  have empty: "submit s = s" if "userAnswer s = []"
    using that by (simp add: submit_def split: option.splits)
  have graded: "submit s = s\<lparr>isCorrect :=
                      Some (length (userAnswer s) = length (degrees (snd c)) \<and>
                            (\<forall>i < length (userAnswer s). userAnswer s ! i = degrees (snd c) ! i)),
                    gameState := result\<rparr>"
    if "current s = Some c \<and> userAnswer s \<noteq> []"
  proof -
    have "correct (userAnswer s) (degrees (snd c)) =
            (length (userAnswer s) = length (degrees (snd c)) \<and>
             (\<forall>i < length (userAnswer s). userAnswer s ! i = degrees (snd c) ! i))"
      by (simp add: correct_iff list_eq_iff_nth_eq)
    with that show ?thesis by (simp add: submit_def)
  qed
  have "correct [1, 4, 5, 1] [1, 4, 5, 1]" "\<not> correct [1, 4, 5] [1, 4, 5, 1]"
    "\<not> correct [1, 4, 5, 2] [1, 4, 5, 1]"
    by (simp_all add: correct_iff)
  with empty graded show ?thesis by blast
qed

theorem submit_grades_witness:
  "(let seq = \<lparr>notes = [str ''C4'', str ''F4'', str ''G4'', str ''C5''], degrees = [1, 4, 5, 1]\<rparr>;
        s = \<lparr>sequences = [(0, seq)], current = Some (0, seq), userAnswer = [1, 4, 5, 1],
             gameState = answering, isCorrect = None, showAnswer = False, isPlaying = False,
             startRoundCurrent = None\<rparr>
    in current s = Some (0, seq) \<and> userAnswer s \<noteq> [] \<and>
       submit s = s\<lparr>isCorrect := Some True, gameState := result\<rparr> \<and>
       submit (s\<lparr>userAnswer := []\<rparr>) = s\<lparr>userAnswer := []\<rparr>)"
  using
    submit_grades [of "\<lparr>sequences = [(0, \<lparr>notes = [str ''C4'', str ''F4'', str ''G4'', str ''C5''],
        degrees = [1, 4, 5, 1]\<rparr>)], current = Some (0, \<lparr>notes = [str ''C4'', str ''F4'', str ''G4'',
        str ''C5''], degrees = [1, 4, 5, 1]\<rparr>), userAnswer = [1, 4, 5, 1], gameState = answering,
        isCorrect = None, showAnswer = False, isPlaying = False, startRoundCurrent = None\<rparr>"
      "(0, \<lparr>notes = [str ''C4'', str ''F4'', str ''G4'', str ''C5''], degrees = [1, 4, 5, 1]\<rparr>)"]
    submit_grades [of "\<lparr>sequences = [(0, \<lparr>notes = [str ''C4'', str ''F4'', str ''G4'', str ''C5''],
        degrees = [1, 4, 5, 1]\<rparr>)], current = Some (0, \<lparr>notes = [str ''C4'', str ''F4'', str ''G4'',
        str ''C5''], degrees = [1, 4, 5, 1]\<rparr>), userAnswer = [], gameState = answering,
        isCorrect = None, showAnswer = False, isPlaying = False, startRoundCurrent = None\<rparr>"]
  by (simp add: Let_def)

text \<open>
  C9: a second \<open>submit\<close> right after the first one changes nothing: the state and the
  grading are the ones the first call left.
\<close>

theorem submit_idempotent: "submit (submit s) = submit s"
  by (simp add: submit_def split: option.splits)

section \<open>Replay during a playback\<close>

text \<open>
  The guard of \<open>replay\<close> is the flag \<^verbatim>\<open>isPlaying\<close>: while it is set, \<open>replay\<close> asks for no
  playback and leaves the state as it is.
\<close>

lemma replay_guard: "isPlaying s \<Longrightarrow> replay s = (s, NoEffect)"
  by (simp add: replay_def split: option.splits)

lemmas app_defs = mount_def setSequences_def initialState_def allocate_def startRound_def
  pickRandom_def index_def startRoundResume_def addDegree_def submit_def correct_def

lemma example_rounds:
  "parseSequences (str ''CFGc;C'') =
     [\<lparr>notes = [str ''C4'', str ''F4'', str ''G4'', str ''C5''], degrees = [1, 4, 5, 1]\<rparr>,
      \<lparr>notes = [str ''C4''], degrees = [1]\<rparr>]"
  by code_simp

lemma example_timers:
  "timerMs [str ''C4'', str ''F4'', str ''G4'', str ''C5''] = 2400" "timerMs [str ''C4''] = 600"
  by code_simp+


text \<open>
  C7: the flag does not follow the playbacks in flight. \<open>startRound\<close> does not look at it, and
  every handler clears it when its own playback resolves. With the collection of
  \<^verbatim>\<open>CFGc;C\<close>: the first round plays the four notes and is answered correctly by the time
  3000; at 5000 the user replays the four notes, a playback in flight until 7400; at 5100
  the user goes on to the next round, which plays the one note of the other Sequence until
  5700 and then clears the flag. At 5800 the replay of 5000 is still in flight, and
  \<open>replay\<close> starts another playback.
\<close>

theorem replay_accepted_during_playback:
  "(let w0 = \<lparr>app = mount (str ''CFGc;C''), pending = []\<rparr>;
        w1 = request 0 (startRound 0) StartRoundRest w0;
        w2 = act 3000 (submit \<circ> addDegree 1 \<circ> addDegree 5 \<circ> addDegree 4 \<circ> addDegree 1) w1;
        w3 = request 5000 replay ReplayRest w2;
        w4 = request 5100 (startRound (1 / 2)) StartRoundRest w3;
        w5 = elapse 5800 w4
    in pending w1 = [(2400, StartRoundRest)] \<and>
       gameState (app w2) = result \<and> isCorrect (app w2) = Some True \<and>
       pending w3 = [(7400, ReplayRest)] \<and>
       pending w4 = [(7400, ReplayRest), (5700, StartRoundRest)] \<and>
       pending w5 = [(7400, ReplayRest)] \<and>
       gameState (app w5) = answering \<and> isPlaying (app w5) = False \<and>
       replay (app w5) = ((app w5)\<lparr>isPlaying := True\<rparr>, PlaySequence [str ''C4'']))"
proof -
  define A where "A = \<lparr>notes = [str ''C4'', str ''F4'', str ''G4'', str ''C5''], degrees = [1, 4, 5, 1]\<rparr>"
  define B where "B = \<lparr>notes = [str ''C4''], degrees = [1]\<rparr>"
  define S where "S = [(0::nat, A), (1, B)]"
  define a0 where "a0 = \<lparr>sequences = S, current = None, userAnswer = [], gameState = idle,
    isCorrect = None, showAnswer = False, isPlaying = False, startRoundCurrent = None\<rparr>"
  define a1 where "a1 = \<lparr>sequences = S, current = Some (0, A), userAnswer = [], gameState = playing,
    isCorrect = None, showAnswer = False, isPlaying = True, startRoundCurrent = None\<rparr>"
  define a2 where "a2 = \<lparr>sequences = S, current = Some (0, A), userAnswer = [1, 4, 5, 1],
    gameState = result, isCorrect = Some True, showAnswer = False, isPlaying = False,
    startRoundCurrent = None\<rparr>"
  define a3 where "a3 = a2\<lparr>isPlaying := True\<rparr>"
  define a4 where "a4 = \<lparr>sequences = S, current = Some (1, B), userAnswer = [], gameState = playing,
    isCorrect = None, showAnswer = False, isPlaying = True, startRoundCurrent = None\<rparr>"
  define a5 where "a5 = a4\<lparr>isPlaying := False, gameState := answering\<rparr>"
  have tA: "timerMs (notes A) = 2400" and tB: "timerMs (notes B) = 600"
    by (simp_all add: A_def B_def example_timers)
  have m: "mount (str ''CFGc;C'') = a0"
    by (simp add: example_rounds mount_def setSequences_def initialState_def allocate_def
        a0_def S_def A_def B_def)
  have s1: "request 0 (startRound 0) StartRoundRest \<lparr>app = a0, pending = []\<rparr> =
              \<lparr>app = a1, pending = [(2400, StartRoundRest)]\<rparr>"
    by (simp add: request_def elapse_def startRound_def pickRandom_def index_def Let_def
        a0_def a1_def S_def tA)
  have s2: "act 3000 (submit \<circ> addDegree 1 \<circ> addDegree 5 \<circ> addDegree 4 \<circ> addDegree 1)
              \<lparr>app = a1, pending = [(2400, StartRoundRest)]\<rparr> = \<lparr>app = a2, pending = []\<rparr>"
    by (simp add: act_def elapse_def resume_def startRoundResume_def addDegree_def submit_def
        correct_def index_def Let_def a1_def a2_def A_def)
  have s3: "request 5000 replay ReplayRest \<lparr>app = a2, pending = []\<rparr> =
              \<lparr>app = a3, pending = [(7400, ReplayRest)]\<rparr>"
    by (simp add: request_def elapse_def replay_def Let_def a2_def a3_def tA)
  have s4: "request 5100 (startRound (1 / 2)) StartRoundRest \<lparr>app = a3, pending = [(7400, ReplayRest)]\<rparr> =
              \<lparr>app = a4, pending = [(7400, ReplayRest), (5700, StartRoundRest)]\<rparr>"
    by (simp add: request_def elapse_def startRound_def pickRandom_def index_def Let_def
        a2_def a3_def a4_def S_def tB)
  have s5: "elapse 5800 \<lparr>app = a4, pending = [(7400, ReplayRest), (5700, StartRoundRest)]\<rparr> =
              \<lparr>app = a5, pending = [(7400, ReplayRest)]\<rparr>"
    by (simp add: elapse_def resume_def startRoundResume_def a4_def a5_def)
  have r: "replay a5 = (a5\<lparr>isPlaying := True\<rparr>, PlaySequence [str ''C4''])"
    by (simp add: replay_def a5_def a4_def B_def)
  have f: "gameState a2 = result" "isCorrect a2 = Some True" "gameState a5 = answering"
    "isPlaying a5 = False"
    by (simp_all add: a2_def a5_def)
  show ?thesis
    unfolding Let_def m s1 s2 s3 s4 s5 using r f by simp
qed

section \<open>The choice of the next Sequence\<close>

text \<open>
  \<open>pickRandom\<close> by itself returns a member of the collection, never the excluded object
  when the collection has more than one member, and the sole member otherwise.
\<close>

lemma index_member: "index xs i = Some x \<Longrightarrow> x \<in> set xs"
  by (auto simp: index_def split: if_splits)

lemma pickRandom_member: "pickRandom rnd arr exclude = Some x \<Longrightarrow> x \<in> set arr"
  by (auto simp: pickRandom_def Let_def split: if_splits dest!: index_member)

lemma pickRandom_excludes:
  "1 < length arr \<Longrightarrow> pickRandom rnd arr (Some e) = Some x \<Longrightarrow> fst x \<noteq> fst e"
  by (auto simp: pickRandom_def Let_def dest!: index_member)

lemma pickRandom_sole: "pickRandom rnd [x] exclude = Some x"
  by (simp add: pickRandom_def index_def)

text \<open>
  The closure of \<open>startRound\<close> is the one of the render in which the collection was set,
  and no handler sets the collection again: the object it excludes is the \<^verbatim>\<open>null\<close> of that
  render in every round.
\<close>

lemma mount_startRoundCurrent: "startRoundCurrent (mount seqParam) = None"
  by (simp add: mount_def setSequences_def initialState_def)

lemma startRound_startRoundCurrent:
  "startRoundCurrent (fst (startRound rnd s)) = startRoundCurrent s"
  by (simp add: startRound_def Let_def)

lemma example_pair:
  "parseSequences (str ''C;D'') =
     [\<lparr>notes = [str ''C4''], degrees = [1]\<rparr>, \<lparr>notes = [str ''D4''], degrees = [2]\<rparr>]"
  by code_simp

text \<open>
  C6: with the collection of \<^verbatim>\<open>C;D\<close> and the random number 0 in both rounds, the first round
  plays the Sequence at address 0; the answer 1 is graded correct; the next round plays
  the Sequence at address 0 again, although the collection has two members.
\<close>

theorem startRound_repeats_sequence:
  "(let s0 = mount (str ''C;D'');
        s1 = startRoundResume (fst (startRound 0 s0));
        s2 = submit (addDegree 1 s1);
        s3 = fst (startRound 0 s2)
    in map fst (sequences s0) = [0, 1] \<and>
       current s1 = Some (0, \<lparr>notes = [str ''C4''], degrees = [1]\<rparr>) \<and>
       isCorrect s2 = Some True \<and> gameState s2 = result \<and>
       current s3 = current s1)"
  by (simp add: example_pair app_defs Let_def)

section \<open>The wait of a playback\<close>

text \<open>The rounding is off by at most one part in \<open>2 ^ 53\<close>, the exponent being the right one.\<close>

lemma roundHalfEven_near: "\<bar>of_int (roundHalfEven q) - q\<bar> \<le> 1 / 2"
  unfolding roundHalfEven_def Let_def by (auto simp: abs_if split: if_splits) linarith+

lemma exponent_lower:
  assumes "0 < x"
  shows "2 powi (exponent x) \<le> x"
proof (cases "1 \<le> x")
  case True
  then have pos: "0 < \<lfloor>x\<rfloor>" by linarith
  from bitlen_bounds [OF pos] have "2 ^ nat (bitlen \<lfloor>x\<rfloor> - 1) \<le> \<lfloor>x\<rfloor>" by simp
  then have "(of_int (2 ^ nat (bitlen \<lfloor>x\<rfloor> - 1)) :: rat) \<le> of_int \<lfloor>x\<rfloor>"
    by (simp only: of_int_le_iff)
  also have "\<dots> \<le> x" by simp
  finally have "(2::rat) ^ nat (bitlen \<lfloor>x\<rfloor> - 1) \<le> x" by simp
  moreover have "0 \<le> bitlen \<lfloor>x\<rfloor> - 1" using pos by (simp add: bitlen_alt_def)
  ultimately show ?thesis using True by (simp add: exponent_def power_int_def)
next
  case False
  with assms have inv: "1 < 1 / x" by simp
  define m where "m = \<lceil>1 / x\<rceil>"
  have m: "1 / x \<le> of_int m" by (simp add: m_def)
  with inv have "1 < (of_int m :: rat)" by linarith
  then have pos: "0 < m - 1" by simp
  define k where "k = bitlen (m - 1)"
  from bitlen_bounds [OF pos] have "m - 1 < 2 ^ nat k" by (simp add: k_def)
  then have "m \<le> 2 ^ nat k" by simp
  then have "(of_int m :: rat) \<le> of_int (2 ^ nat k)" by (simp only: of_int_le_iff)
  then have "(of_int m :: rat) \<le> 2 ^ nat k" by simp
  with m have "1 / x \<le> 2 ^ nat k" by linarith
  then have "1 / 2 ^ nat k \<le> x" using assms
    by (simp add: field_simps)
  moreover have "0 \<le> k" by (simp add: k_def bitlen_nonneg)
  ultimately show ?thesis using False
    by (auto simp: exponent_def power_int_def m_def k_def inverse_eq_divide power_one_over)
qed

lemma exponent_upper:
  assumes "0 < x"
  shows "x < 2 powi (exponent x + 1)"
proof (cases "1 \<le> x")
  case True
  then have pos: "0 < \<lfloor>x\<rfloor>" by linarith
  define k where "k = bitlen \<lfloor>x\<rfloor>"
  from bitlen_bounds [OF pos] have "\<lfloor>x\<rfloor> + 1 \<le> 2 ^ nat k" by (simp add: k_def)
  then have "(of_int (\<lfloor>x\<rfloor> + 1) :: rat) \<le> of_int (2 ^ nat k)" by (simp only: of_int_le_iff)
  moreover have "x < of_int (\<lfloor>x\<rfloor> + 1)" by linarith
  ultimately have "x < 2 ^ nat k" by simp
  moreover have "0 \<le> k" by (simp add: k_def bitlen_nonneg)
  ultimately show ?thesis using True by (simp add: exponent_def power_int_def k_def)
next
  case False
  with assms have inv: "1 < 1 / x" by simp
  define m where "m = \<lceil>1 / x\<rceil>"
  have m: "of_int m - 1 < 1 / x" unfolding m_def by linarith
  have "1 / x \<le> of_int m" by (simp add: m_def)
  with inv have "1 < (of_int m :: rat)" by linarith
  then have pos: "0 < m - 1" by simp
  define k where "k = bitlen (m - 1)"
  have k1: "1 \<le> k" using pos by (simp add: k_def bitlen_alt_def)
  from bitlen_bounds [OF pos] have "2 ^ nat (k - 1) \<le> m - 1" by (simp add: k_def)
  then have "(of_int (2 ^ nat (k - 1)) :: rat) \<le> of_int (m - 1)" by (simp only: of_int_le_iff)
  with m have lt: "2 ^ nat (k - 1) < 1 / x" by simp
  have "x < 1 / 2 ^ nat (k - 1)"
  proof -
    from lt assms have "2 ^ nat (k - 1) * x < 1" by (simp add: field_simps)
    then show ?thesis by (simp add: field_simps)
  qed
  moreover have "- k + 1 \<le> 0" using k1 by simp
  moreover have "nat (k - 1) = nat (- (- k + 1))" by simp
  ultimately show ?thesis using False k1
    by (auto simp: exponent_def power_int_def m_def k_def inverse_eq_divide power_one_over)
qed

lemma binary64_error:
  assumes "0 < x"
  shows "\<bar>binary64 x - x\<bar> \<le> x / 2 ^ 53"
proof -
  define ulp :: rat where "ulp = 2 powi (exponent x - 52)"
  have ulp_pos: "0 < ulp" by (simp add: ulp_def)
  have ulp_eq: "ulp = 2 powi (exponent x) / 2 ^ 52"
    by (simp add: ulp_def power_int_diff)
  have b: "binary64 x = of_int (roundHalfEven (x / ulp)) * ulp"
    using assms by (simp add: binary64_def ulp_def Let_def)
  have "binary64 x - x = (of_int (roundHalfEven (x / ulp)) - x / ulp) * ulp"
    using ulp_pos by (simp add: b field_simps)
  then have "\<bar>binary64 x - x\<bar> = \<bar>of_int (roundHalfEven (x / ulp)) - x / ulp\<bar> * ulp"
    using ulp_pos by (simp add: abs_mult)
  also have "\<dots> \<le> 1 / 2 * ulp"
    using roundHalfEven_near [of "x / ulp"] ulp_pos by (intro mult_right_mono) simp_all
  also have "\<dots> = 2 powi (exponent x) / 2 ^ 53" by (simp add: ulp_eq)
  also have "\<dots> \<le> x / 2 ^ 53"
    using exponent_lower [OF assms] by (simp add: divide_right_mono)
  finally show ?thesis .
qed

lemma first_rounding:
  fixes p n :: rat
  assumes P: "\<bar>p - n * (5404319552844595 / 9007199254740992)\<bar>
             \<le> n * (5404319552844595 / 9007199254740992) / 2 ^ 53"
    and N: "0 < n"
  shows "0 < p \<and> p \<le> n \<and> \<bar>p - 3 / 5 * n\<bar> \<le> 4 / 5 * (n / 2 ^ 53)"
proof -
  define a where "a = n / 2 ^ 53"
  define x where "x = n * (5404319552844595 / 9007199254740992)"
  define y where "y = x / 2 ^ 53"
  have a: "0 < a" "4 * a \<le> n" using N by (simp_all add: a_def)
  have x: "x = 3 / 5 * n - a / 5" by (simp add: x_def a_def)
  have "x \<le> 3 / 5 * n" using a x by linarith
  then have "x / 2 ^ 53 \<le> 3 / 5 * n / 2 ^ 53" by (rule divide_right_mono) simp
  then have y: "y \<le> 3 / 5 * a" by (simp add: y_def a_def)
  from P have P': "\<bar>p - x\<bar> \<le> y" by (simp only: x_def y_def)
  from P' x y a have "0 < p \<and> p \<le> n \<and> \<bar>p - 3 / 5 * n\<bar> \<le> 4 / 5 * a" by linarith
  then show ?thesis by (simp only: a_def)
qed

lemma second_rounding:
  fixes p n d :: rat
  assumes P: "0 < p \<and> p \<le> n \<and> \<bar>p - 3 / 5 * n\<bar> \<le> 4 / 5 * (n / 2 ^ 53)"
    and D: "\<bar>d - p * 1000\<bar> \<le> p * 1000 / 2 ^ 53"
  shows "\<bar>d - 600 * n\<bar> \<le> 600 * n / 2 ^ 51"
proof -
  define a where "a = n / 2 ^ 53"
  define z where "z = p * 1000 / 2 ^ 53"
  from P have P': "0 < p" "p \<le> n" "\<bar>p - 3 / 5 * n\<bar> \<le> 4 / 5 * a" by (simp_all only: a_def)
  from P'(2) have "p * 1000 \<le> n * 1000" by simp
  then have "p * 1000 / 2 ^ 53 \<le> n * 1000 / 2 ^ 53" by (rule divide_right_mono) simp
  then have z: "z \<le> 1000 * a" by (simp add: z_def a_def)
  from D have D': "\<bar>d - 1000 * p\<bar> \<le> z" by (simp only: z_def mult.commute)
  from P' D' z have "\<bar>d - 600 * n\<bar> \<le> 2400 * a" by linarith
  then show ?thesis by (simp add: a_def)
qed

text \<open>The literal \<^verbatim>\<open>0.1\<close> and the sum \<^verbatim>\<open>0.5 + 0.1\<close> as binary64 numbers.\<close>

lemma gap_value: "gap = 3602879701896397 / 36028797018963968"
  by code_simp

lemma slot: "binary64 (noteDuration + gap) = 5404319552844595 / 9007199254740992"
  by code_simp

lemma timeoutDelay_near:
  "\<bar>timeoutDelay ns - 600 * of_nat (length ns)\<bar> \<le> 600 * of_nat (length ns) / 2 ^ 51"
proof (cases "length ns = 0")
  case True
  then show ?thesis by (simp add: timeoutDelay_def totalDuration_def binary64_def)
next
  case False
  define n :: rat where "n = of_nat (length ns)"
  define p where "p = totalDuration ns"
  define d where "d = timeoutDelay ns"
  have n: "0 < n" using False by (simp add: n_def)
  have p_eq: "p = binary64 (n * (5404319552844595 / 9007199254740992))"
    by (simp add: p_def totalDuration_def slot n_def)
  have "0 < n * (5404319552844595 / 9007199254740992)" using n by simp
  from binary64_error [OF this]
  have p: "\<bar>p - n * (5404319552844595 / 9007199254740992)\<bar>
             \<le> n * (5404319552844595 / 9007199254740992) / 2 ^ 53"
    by (simp only: p_eq)
  note first = first_rounding [OF p n]
  then have "0 < p * 1000" by simp
  have d_eq: "d = binary64 (p * 1000)"
    by (simp add: d_def timeoutDelay_def p_def)
  have d: "\<bar>d - p * 1000\<bar> \<le> p * 1000 / 2 ^ 53"
    unfolding d_eq using \<open>0 < p * 1000\<close> by (rule binary64_error)
  from second_rounding [OF first d] show ?thesis by (simp only: d_def n_def)
qed

text \<open>
  C8, as the code has it: the delay that \<open>playSequence\<close> hands to its timer is the number
  of notes times 600 milliseconds up to a relative error of one part in \<open>2 ^ 51\<close>, what its
  roundings leave, and not always that product itself. The timer, which counts
  whole milliseconds, waits the number of notes times 600 milliseconds or one millisecond
  less, for every list whose wait is below \<open>2 ^ 31\<close> milliseconds.
\<close>

theorem playSequence_wait:
  "\<bar>timeoutDelay ns - 600 * of_nat (length ns)\<bar> \<le> 600 * of_nat (length ns) / 2 ^ 51 \<and>
   (600 * int (length ns) < 2 ^ 31 \<longrightarrow>
      timerMs ns = 600 * int (length ns) \<or> timerMs ns = 600 * int (length ns) - 1)"
proof -
  define n :: int where "n = int (length ns)"
  have near: "\<bar>timeoutDelay ns - 600 * of_int n\<bar> \<le> 600 * of_int n / 2 ^ 51"
    using timeoutDelay_near [of ns] by (simp add: n_def)
  have "timerMs ns = 600 * n \<or> timerMs ns = 600 * n - 1" if small: "600 * n < 2 ^ 31"
  proof -
    from small have "(of_int (600 * n) :: rat) < of_int (2 ^ 31)" by (simp only: of_int_less_iff)
    then have "600 * (of_int n :: rat) < 2 ^ 31" by simp
    then have "600 * (of_int n :: rat) / 2 ^ 51 < 2 ^ 31 / 2 ^ 51"
      by (rule divide_strict_right_mono) simp
    then have "600 * (of_int n :: rat) / 2 ^ 51 < 1" by simp
    with near have lo: "of_int (600 * n - 1) \<le> timeoutDelay ns"
      and hi: "timeoutDelay ns < of_int (600 * n + 1)"
      unfolding abs_le_iff by simp_all
    from lo have "600 * n - 1 \<le> \<lfloor>timeoutDelay ns\<rfloor>" by (simp only: le_floor_iff)
    moreover from hi have "\<lfloor>timeoutDelay ns\<rfloor> < 600 * n + 1" by (simp only: floor_less_iff)
    ultimately show ?thesis by (auto simp: timerMs_def)
  qed
  with timeoutDelay_near [of ns] show ?thesis by (simp add: n_def)
qed

theorem playSequence_wait_witness:
  "600 * int (length [str ''C4'', str ''E4'', str ''G4'']) < 2 ^ 31 \<and>
   timerMs [str ''C4'', str ''E4'', str ''G4''] = 600 * 3 - 1 \<and>
   \<bar>timeoutDelay [str ''C4'', str ''E4'', str ''G4''] - 1800\<bar> \<le> 1800 / 2 ^ 51"
proof -
  have t: "timerMs [str ''C4'', str ''E4'', str ''G4''] = 1799" by code_simp
  from playSequence_wait [of "[str ''C4'', str ''E4'', str ''G4'']"] t show ?thesis by simp
qed

text \<open>
  For three notes the delay is 1799.9999999999998 milliseconds, below the 1800 of three
  slots of 0.5 + 0.1 seconds, and the timer waits 1799 milliseconds.
\<close>

theorem playSequence_wait_counterexample:
  "timeoutDelay [str ''C4'', str ''E4'', str ''G4''] = 7916483719987199 / 4398046511104 \<and>
   timeoutDelay [str ''C4'', str ''E4'', str ''G4''] < 3 * (1 / 2 + 1 / 10) * 1000 \<and>
   timerMs [str ''C4'', str ''E4'', str ''G4''] = 1799"
  by code_simp

end
